theory Spec2Isabelle
  imports Main "HOL-Library.Word"
begin

section \<open>The users table\<close>

text \<open>
  \<^verbatim>\<open>class User(Base)\<close> of \<^verbatim>\<open>main.py\<close>: one row of the table \<^verbatim>\<open>users\<close>.
  The column \<^verbatim>\<open>id\<close> is called \<open>user_id\<close> here. A Python \<^verbatim>\<open>str\<close> is a \<open>string\<close>
  with one \<open>char\<close> for each character of the \<^verbatim>\<open>str\<close>; the nullable column
  \<^verbatim>\<open>reset_token\<close> is an \<open>option\<close>, \<open>None\<close> for SQL NULL.
\<close>

record user =
  user_id :: nat
  email :: string
  password :: string
  reset_token :: "string option"

text \<open>
  The database as the handlers see it: the rows of \<^verbatim>\<open>users\<close> in the order a query
  without ORDER BY yields them, and the next value of the sequence behind the primary key.
\<close>

record store =
  rows :: "user list"
  next_id :: nat

definition empty_store :: store where
  "empty_store = \<lparr>rows = [], next_id = 1\<rparr>"

text \<open>
  What the table's declaration makes the database enforce: \<^verbatim>\<open>primary_key=True\<close> on
  \<^verbatim>\<open>id\<close> (with the sequence ahead of every row) and \<^verbatim>\<open>unique=True\<close> on
  \<^verbatim>\<open>email\<close>. Nothing is declared about \<^verbatim>\<open>reset_token\<close>.
\<close>

definition schema_ok :: "store \<Rightarrow> bool" where
  "schema_ok db \<longleftrightarrow>
     distinct (map user_id (rows db)) \<and>
     distinct (map email (rows db)) \<and>
     list_all (\<lambda>u. user_id u < next_id db) (rows db)"

section \<open>Exceptions and responses\<close>

text \<open>
  \<^verbatim>\<open>HTTPException(status_code, detail)\<close> is what the handlers raise themselves;
  \<open>IndexError\<close> is Python's, from indexing an empty \<^verbatim>\<open>str\<close>; \<open>IntegrityError\<close> is the
  database's, from a commit that breaks the unique constraint on \<^verbatim>\<open>email\<close>.
\<close>

datatype exn = HTTPException nat string | IndexError | IntegrityError

text \<open>The five error kinds of the service, as the exceptions the handlers raise for them.\<close>

abbreviation WeakPassword :: exn where
  "WeakPassword \<equiv> HTTPException 400
     ''Password must start with a capital letter, contain '@' and at least one number.''"

abbreviation EmailTaken :: exn where
  "EmailTaken \<equiv> HTTPException 400 ''Email already registered''"

abbreviation InvalidCredentials :: exn where
  "InvalidCredentials \<equiv> HTTPException 401 ''Invalid credentials''"

abbreviation EmailNotFound :: exn where
  "EmailNotFound \<equiv> HTTPException 404 ''Email not found''"

abbreviation InvalidToken :: exn where
  "InvalidToken \<equiv> HTTPException 400 ''Invalid token''"

text \<open>
  The dictionaries the handlers return: \<^verbatim>\<open>{"message": m}\<close> and
  \<^verbatim>\<open>{"reset_token": t}\<close>.
\<close>

datatype response = Message string | ResetToken string

section \<open>The password validator\<close>

text \<open>
  \<^verbatim>\<open>validate_password\<close>. \<^verbatim>\<open>str.isupper\<close> and \<^verbatim>\<open>str.isdigit\<close> on one character are
  the Python runtime's Unicode classification; they are the parameters \<open>isupper\<close> and
  \<open>isdigit\<close>, so every theorem holds for whatever the runtime's tables say.
  \<^verbatim>\<open>password[0]\<close> raises IndexError on the empty string, before any other test.
\<close>

definition validate_password :: "(char \<Rightarrow> bool) \<Rightarrow> (char \<Rightarrow> bool) \<Rightarrow> string \<Rightarrow> exn + bool" where
  "validate_password isupper isdigit pw =
     (case pw of
        [] \<Rightarrow> Inl IndexError
      | c # _ \<Rightarrow>
          if \<not> isupper c then Inr False
          else if CHR ''@'' \<notin> set pw then Inr False
          else if \<not> list_ex isdigit pw then Inr False
          else Inr True)"

text \<open>
  What \<^verbatim>\<open>str.isupper\<close>, \<^verbatim>\<open>str.isdecimal\<close> and \<^verbatim>\<open>str.isdigit\<close> of the Python runtime say of
  one character with a code point below 256. Uppercase are A to Z and the capital letters
  U+00C0 to U+00DE, without the multiplication sign U+00D7. Decimal are 0 to 9 only;
  \<^verbatim>\<open>isdigit\<close> holds of these and of the superscript digits U+00B2, U+00B3 and U+00B9.
\<close>

definition py_isupper :: "char \<Rightarrow> bool" where
  "py_isupper c \<longleftrightarrow>
     c \<in> set ''ABCDEFGHIJKLMNOPQRSTUVWXYZ'' \<or>
     ((0xC0::nat) \<le> of_char c \<and> of_char c \<le> (0xDE::nat) \<and> of_char c \<noteq> (0xD7::nat))"

definition py_isdecimal :: "char \<Rightarrow> bool" where
  "py_isdecimal c \<longleftrightarrow> c \<in> set ''0123456789''"

definition py_isdigit :: "char \<Rightarrow> bool" where
  "py_isdigit c \<longleftrightarrow> py_isdecimal c \<or> c \<in> {CHR 0xB2, CHR 0xB3, CHR 0xB9}"

text \<open>The two classifications on ASCII, to run the model on concrete ASCII inputs.\<close>

definition ascii_isupper :: "char \<Rightarrow> bool" where
  "ascii_isupper c \<longleftrightarrow> c \<in> set ''ABCDEFGHIJKLMNOPQRSTUVWXYZ''"

definition ascii_isdigit :: "char \<Rightarrow> bool" where
  "ascii_isdigit c \<longleftrightarrow> c \<in> set ''0123456789''"

section \<open>Reset tokens\<close>

text \<open>
  \<^verbatim>\<open>secrets.token_hex(nbytes)\<close> is \<^verbatim>\<open>hexlify(token_bytes(nbytes))\<close>: \<open>nbytes\<close> bytes of
  the operating system's random source, each rendered as two lowercase hexadecimal digits,
  high nibble first. The random source is an input of the model: \<open>rnd k\<close> is the
  \<open>k\<close>-th byte it yields for the call.
\<close>

type_synonym entropy = "nat \<Rightarrow> 8 word"

definition token_bytes :: "entropy \<Rightarrow> nat \<Rightarrow> 8 word list" where
  "token_bytes rnd nbytes = map rnd [0..<nbytes]"

definition hex_digit :: "nat \<Rightarrow> char" where
  "hex_digit n = ''0123456789abcdef'' ! (n mod 16)"

definition hex_byte :: "8 word \<Rightarrow> string" where
  "hex_byte b = [hex_digit (unat b div 16), hex_digit (unat b mod 16)]"

definition hexlify :: "8 word list \<Rightarrow> string" where
  "hexlify bs = concat (map hex_byte bs)"

definition token_hex :: "entropy \<Rightarrow> nat \<Rightarrow> string" where
  "token_hex rnd nbytes = hexlify (token_bytes rnd nbytes)"

section \<open>Queries and commits\<close>

text \<open>
  \<^verbatim>\<open>select(User).where(User.email == e)\<close> followed by \<^verbatim>\<open>.scalars().first()\<close>: the first
  matching row or \<^verbatim>\<open>None\<close>.
\<close>

definition find_by_email :: "store \<Rightarrow> string \<Rightarrow> user option" where
  "find_by_email db e = find (\<lambda>u. email u = e) (rows db)"

text \<open>
  \<^verbatim>\<open>select(User).where(User.reset_token == t)\<close> followed by \<^verbatim>\<open>.scalars().first()\<close>.
  In SQL a NULL \<^verbatim>\<open>reset_token\<close> equals no string.
\<close>

definition find_by_reset_token :: "store \<Rightarrow> string \<Rightarrow> user option" where
  "find_by_reset_token db t = find (\<lambda>u. reset_token u = Some t) (rows db)"

text \<open>
  \<^verbatim>\<open>db.add(User(email=e, password=pw))\<close> and \<^verbatim>\<open>db.commit()\<close>: the INSERT takes the next
  id of the sequence and leaves \<^verbatim>\<open>reset_token\<close> NULL; the unique constraint on
  \<^verbatim>\<open>email\<close> makes the commit raise when the email is already in the table.
\<close>

definition add_commit :: "store \<Rightarrow> string \<Rightarrow> string \<Rightarrow> exn + store" where
  "add_commit db e pw =
     (if e \<in> set (map email (rows db)) then Inl IntegrityError
      else Inr \<lparr>rows = rows db @
                  [\<lparr>user_id = next_id db, email = e, password = pw, reset_token = None\<rparr>],
                next_id = next_id db + 1\<rparr>)"

text \<open>
  \<^verbatim>\<open>db.commit()\<close> after attributes of a loaded object were assigned: the UPDATE
  writes the object's columns to the row with the object's primary key.
\<close>

definition commit_update :: "store \<Rightarrow> user \<Rightarrow> store" where
  "commit_update db u = db\<lparr>rows := map (\<lambda>r. if user_id r = user_id u then u else r) (rows db)\<rparr>"

section \<open>The handlers\<close>

text \<open>
  Each handler takes the database and the fields of its request body, as pydantic has
  decoded them, and returns the database after the request together with the exception
  raised or the response returned. An exception propagates from the point where the
  source raises it; nothing is written before the handler's \<^verbatim>\<open>db.commit()\<close>.
\<close>

definition signup ::
  "(char \<Rightarrow> bool) \<Rightarrow> (char \<Rightarrow> bool) \<Rightarrow> store \<Rightarrow> string \<Rightarrow> string \<Rightarrow> store \<times> (exn + response)" where
  "signup isupper isdigit db e pw =
     (case validate_password isupper isdigit pw of
        Inl ex \<Rightarrow> (db, Inl ex)
      | Inr ok \<Rightarrow>
          if \<not> ok then (db, Inl WeakPassword)
          else (case find_by_email db e of
                  Some existing_user \<Rightarrow> (db, Inl EmailTaken)
                | None \<Rightarrow>
                    (case add_commit db e pw of
                       Inl ex \<Rightarrow> (db, Inl ex)
                     | Inr db' \<Rightarrow> (db', Inr (Message ''User registered successfully'')))))"

definition signin :: "store \<Rightarrow> string \<Rightarrow> string \<Rightarrow> store \<times> (exn + response)" where
  "signin db e pw =
     (case find_by_email db e of
        None \<Rightarrow> (db, Inl InvalidCredentials)
      | Some db_user \<Rightarrow>
          if password db_user \<noteq> pw then (db, Inl InvalidCredentials)
          else (db, Inr (Message ''Login successful'')))"

definition forget_password :: "entropy \<Rightarrow> store \<Rightarrow> string \<Rightarrow> store \<times> (exn + response)" where
  "forget_password rnd db e =
     (case find_by_email db e of
        None \<Rightarrow> (db, Inl EmailNotFound)
      | Some db_user \<Rightarrow>
          (let token = token_hex rnd 16
           in (commit_update db (db_user\<lparr>reset_token := Some token\<rparr>),
               Inr (ResetToken token))))"

definition reset_password ::
  "(char \<Rightarrow> bool) \<Rightarrow> (char \<Rightarrow> bool) \<Rightarrow> store \<Rightarrow> string \<Rightarrow> string \<Rightarrow> store \<times> (exn + response)" where
  "reset_password isupper isdigit db t new_password =
     (case find_by_reset_token db t of
        None \<Rightarrow> (db, Inl InvalidToken)
      | Some db_user \<Rightarrow>
          (case validate_password isupper isdigit new_password of
             Inl ex \<Rightarrow> (db, Inl ex)
           | Inr ok \<Rightarrow>
               if \<not> ok then (db, Inl WeakPassword)
               else (commit_update db (db_user\<lparr>password := new_password, reset_token := None\<rparr>),
                     Inr (Message ''Password reset successfully''))))"

section \<open>Sequences of requests\<close>

text \<open>
  The four POST routes with their bodies; a \<open>ForgetPassword\<close> request carries the bytes
  the random source yields while it is served. Requests are served one after the other; a
  request that raises leaves the database as the handler left it.
\<close>

datatype request =
    Signup string string
  | Signin string string
  | ForgetPassword string entropy
  | ResetPassword string string

fun serve ::
  "(char \<Rightarrow> bool) \<Rightarrow> (char \<Rightarrow> bool) \<Rightarrow> store \<Rightarrow> request \<Rightarrow> store \<times> (exn + response)" where
  "serve isupper isdigit db (Signup e pw) = signup isupper isdigit db e pw"
| "serve isupper isdigit db (Signin e pw) = signin db e pw"
| "serve isupper isdigit db (ForgetPassword e rnd) = forget_password rnd db e"
| "serve isupper isdigit db (ResetPassword t pw) = reset_password isupper isdigit db t pw"

definition run :: "(char \<Rightarrow> bool) \<Rightarrow> (char \<Rightarrow> bool) \<Rightarrow> store \<Rightarrow> request list \<Rightarrow> store" where
  "run isupper isdigit db reqs = foldl (\<lambda>d r. fst (serve isupper isdigit d r)) db reqs"

section \<open>Reset tokens in the table\<close>

text \<open>
  The reset tokens held in the table, one entry for each row whose \<^verbatim>\<open>reset_token\<close>
  is not NULL, and the property that no token is held by two rows.
\<close>

definition held_tokens :: "store \<Rightarrow> string list" where
  "held_tokens db = List.map_filter reset_token (rows db)"

definition tokens_unique :: "store \<Rightarrow> bool" where
  "tokens_unique db \<longleftrightarrow> distinct (held_tokens db)"

text \<open>
  A \<open>ForgetPassword\<close> request draws without collision when the token it generates is
  held, at that moment, by no row but the requesting user's own. Nothing in the source
  checks this; it is how the random source is expected to behave.
\<close>

fun draw_ok :: "store \<Rightarrow> request \<Rightarrow> bool" where
  "draw_ok db (ForgetPassword e rnd) =
     list_all (\<lambda>u. reset_token u = Some (token_hex rnd 16) \<longrightarrow> email u = e) (rows db)"
| "draw_ok db _ = True"

fun collision_free :: "(char \<Rightarrow> bool) \<Rightarrow> (char \<Rightarrow> bool) \<Rightarrow> store \<Rightarrow> request list \<Rightarrow> bool" where
  "collision_free isupper isdigit db [] = True"
| "collision_free isupper isdigit db (r # rs) =
     (draw_ok db r \<and> collision_free isupper isdigit (fst (serve isupper isdigit db r)) rs)"

section \<open>Concrete stores and inputs\<close>

text \<open>The table after \<^verbatim>\<open>alice@example.com\<close> signed up with \<^verbatim>\<open>Secret1@\<close>.\<close>

definition alice :: user where
  "alice = \<lparr>user_id = 1, email = ''alice@example.com'', password = ''Secret1@'',
            reset_token = None\<rparr>"

definition alice_db :: store where
  "alice_db = \<lparr>rows = [alice], next_id = 2\<rparr>"

text \<open>Two random draws: sixteen zero bytes, and the bytes 0x00, 0x11, ..., 0xff.\<close>

definition zeros :: entropy where
  "zeros = (\<lambda>k. 0)"

definition steps17 :: entropy where
  "steps17 = (\<lambda>k. of_nat (17 * k))"

text \<open>A table in which two users hold the same reset token.\<close>

definition bob :: user where
  "bob = \<lparr>user_id = 2, email = ''bob@example.com'', password = ''Hunter2@'',
          reset_token = Some ''00000000000000000000000000000000''\<rparr>"

definition twins_db :: store where
  "twins_db = \<lparr>rows = [alice\<lparr>reset_token := Some ''00000000000000000000000000000000''\<rparr>, bob],
               next_id = 3\<rparr>"

text \<open>
  The table while alice has a reset pending, and a table in which bob has one pending
  under the token that sixteen zero bytes render to.
\<close>

definition pending_db :: store where
  "pending_db = \<lparr>rows = [alice\<lparr>reset_token := Some ''00112233445566778899aabbccddeeff''\<rparr>],
                 next_id = 2\<rparr>"

definition bob_pending_db :: store where
  "bob_pending_db = \<lparr>rows = [alice, bob], next_id = 3\<rparr>"

text \<open>A sequence of requests in which no draw collides with a token held by another user.\<close>

definition session :: "request list" where
  "session =
     [Signup ''alice@example.com'' ''Secret1@'', Signup ''bob@example.com'' ''Hunter2@'',
      ForgetPassword ''alice@example.com'' zeros, ForgetPassword ''bob@example.com'' steps17,
      ForgetPassword ''alice@example.com'' zeros,
      ResetPassword ''00000000000000000000000000000000'' ''NewPass2@'']"

section \<open>The password validator: results\<close>

text \<open>
  C1, as amended. For every password, the validator returns true exactly when the
  password is not empty, its first character is uppercase, it contains \<open>@\<close> and it
  contains a character of which \<^verbatim>\<open>str.isdigit\<close> holds. This is so whatever the runtime's
  classification of characters is; among the characters below U+0100 the last condition
  asks for a decimal digit or one of the superscript digits U+00B2, U+00B3, U+00B9.
\<close>

theorem validate_password_true_iff:
  "(validate_password isupper isdigit p = Inr True \<longleftrightarrow>
      p \<noteq> [] \<and> isupper (hd p) \<and> CHR ''@'' \<in> set p \<and> (\<exists>c \<in> set p. isdigit c)) \<and>
   (validate_password py_isupper py_isdigit p = Inr True \<longleftrightarrow>
      p \<noteq> [] \<and> py_isupper (hd p) \<and> CHR ''@'' \<in> set p \<and>
      (\<exists>c \<in> set p. py_isdecimal c \<or> c \<in> {CHR 0xB2, CHR 0xB3, CHR 0xB9}))"
proof -
  have g: "validate_password up dg p = Inr True \<longleftrightarrow>
      p \<noteq> [] \<and> up (hd p) \<and> CHR ''@'' \<in> set p \<and> (\<exists>c \<in> set p. dg c)" for up dg
    by (cases p) (auto simp: validate_password_def list_ex_iff)
  show ?thesis
    using g [of isupper isdigit] g [of py_isupper py_isdigit]
    by (simp only: py_isdigit_def)
qed

theorem validate_password_true_iff_witness:
  "validate_password py_isupper py_isdigit ''Secret1@'' = Inr True \<and>
   validate_password py_isupper py_isdigit [CHR 0xC9, CHR ''@'', CHR 0xB3] = Inr True \<and>
   validate_password py_isupper py_isdigit ''secret1@'' \<noteq> Inr True"
proof -
  have a: "py_isupper (hd ''Secret1@'')" "py_isupper (hd [CHR 0xC9, CHR ''@'', CHR 0xB3])"
    "\<not> py_isupper (hd ''secret1@'')"
    by (simp_all add: py_isupper_def)
  have b: "py_isdecimal CHR ''1''" by (simp add: py_isdecimal_def)
  from a b
    validate_password_true_iff [of py_isupper py_isdigit "''Secret1@''", THEN conjunct2]
    validate_password_true_iff [of py_isupper py_isdigit "[CHR 0xC9, CHR ''@'', CHR 0xB3]",
      THEN conjunct2]
    validate_password_true_iff [of py_isupper py_isdigit "''secret1@''", THEN conjunct2]
  show ?thesis by simp
qed

text \<open>
  With "a decimal digit" in place of \<^verbatim>\<open>str.isdigit\<close> the statement fails: the password
  made of \<open>A\<close>, \<open>@\<close> and the superscript two U+00B2 is accepted and holds no decimal
  digit.
\<close>

theorem validate_password_superscript_counterexample:
  "validate_password py_isupper py_isdigit [CHR ''A'', CHR ''@'', CHR 0xB2] = Inr True \<and>
   \<not> list_ex py_isdecimal [CHR ''A'', CHR ''@'', CHR 0xB2]"
  by (simp add: validate_password_def py_isupper_def py_isdigit_def py_isdecimal_def)

text \<open>
  C2. The specification asks the validator to return false on the empty password without
  indexing it. The source indexes first: on the empty password it raises IndexError,
  whatever the classification of characters.
\<close>

theorem validate_password_empty_raises:
  "validate_password isupper isdigit [] = Inl IndexError"
  by (simp add: validate_password_def)

section \<open>Evaluations on concrete inputs\<close>

lemma validate_ok: "validate_password ascii_isupper ascii_isdigit ''Secret1@'' = Inr True"
  by (simp add: validate_password_def ascii_isupper_def ascii_isdigit_def)

lemma validate_weak: "validate_password ascii_isupper ascii_isdigit ''secret'' = Inr False"
  by (simp add: validate_password_def ascii_isupper_def ascii_isdigit_def)

lemma token_hex_zeros: "token_hex zeros 16 = ''00000000000000000000000000000000''"
  by (simp add: token_hex_def token_bytes_def hexlify_def hex_byte_def hex_digit_def zeros_def upt_rec)

lemma token_hex_steps17: "token_hex steps17 16 = ''00112233445566778899aabbccddeeff''"
  by (simp add: token_hex_def token_bytes_def hexlify_def hex_byte_def hex_digit_def steps17_def upt_rec)

lemma validate_new: "validate_password ascii_isupper ascii_isdigit ''NewPass2@'' = Inr True"
  by (simp add: validate_password_def ascii_isupper_def ascii_isdigit_def)

lemma validate_hunter: "validate_password ascii_isupper ascii_isdigit ''Hunter2@'' = Inr True"
  by (simp add: validate_password_def ascii_isupper_def ascii_isdigit_def)

section \<open>Facts about the queries\<close>

lemma find_by_email_None_iff: "find_by_email db e = None \<longleftrightarrow> e \<notin> set (map email (rows db))"
  by (auto simp: find_by_email_def find_None_iff)

lemma find_by_email_SomeD: "find_by_email db e = Some u \<Longrightarrow> u \<in> set (rows db) \<and> email u = e"
  by (auto simp: find_by_email_def find_Some_iff)

lemma find_unique:
  "distinct (map f xs) \<Longrightarrow> u \<in> set xs \<Longrightarrow> find (\<lambda>x. f x = f u) xs = Some u"
  by (induction xs) (auto simp: image_iff)

lemma find_by_email_member:
  "distinct (map email (rows db)) \<Longrightarrow> u \<in> set (rows db) \<Longrightarrow> find_by_email db (email u) = Some u"
  unfolding find_by_email_def by (rule find_unique)

lemma find_first_split:
  "find P xs = Some u \<Longrightarrow> \<exists>ys zs. xs = ys @ u # zs \<and> P u \<and> (\<forall>y \<in> set ys. \<not> P y)"
proof (induction xs)
  case Nil
  then show ?case by simp
next
  case (Cons x xs)
  show ?case
  proof (cases "P x")
    case True
    with Cons.prems have "x = u" by simp
    with True have "x # xs = [] @ u # xs \<and> P u \<and> (\<forall>y \<in> set []. \<not> P y)" by simp
    then show ?thesis by blast
  next
    case False
    with Cons.prems have "find P xs = Some u" by simp
    from Cons.IH [OF this] obtain ys zs
      where "xs = ys @ u # zs" "P u" "\<forall>y \<in> set ys. \<not> P y" by blast
    with False have "x # xs = (x # ys) @ u # zs \<and> P u \<and> (\<forall>y \<in> set (x # ys). \<not> P y)" by simp
    then show ?thesis by blast
  qed
qed

lemma find_in_split:
  "P u \<Longrightarrow> \<forall>y \<in> set ys. \<not> P y \<Longrightarrow> find P (ys @ u # zs) = Some u"
  by (induction ys) auto

lemma update_rows_split:
  assumes "distinct (map user_id (ys @ u # zs))" and "user_id u' = user_id u"
  shows "map (\<lambda>r. if user_id r = user_id u' then u' else r) (ys @ u # zs) = ys @ u' # zs"
proof -
  have a: "\<forall>r \<in> set ys. user_id r \<noteq> user_id u" using assms(1) by (auto simp: image_iff)
  have b: "\<forall>r \<in> set zs. user_id r \<noteq> user_id u" using assms(1) by (auto simp: image_iff)
  have "map (\<lambda>r. if user_id r = user_id u' then u' else r) ys = ys"
    using a assms(2) by (simp add: map_idI)
  moreover have "map (\<lambda>r. if user_id r = user_id u' then u' else r) zs = zs"
    using b assms(2) by (simp add: map_idI)
  ultimately show ?thesis using assms(2) by simp
qed

lemma commit_update_split:
  assumes "distinct (map user_id (rows db))" and "rows db = ys @ u # zs"
    and "user_id u' = user_id u"
  shows "commit_update db u' = db\<lparr>rows := ys @ u' # zs\<rparr>"
  using update_rows_split [of ys u zs u'] assms by (simp add: commit_update_def)

lemma schema_ok_commit_update:
  assumes "schema_ok db" and "rows db = ys @ u # zs"
    and "user_id u' = user_id u" and "email u' = email u"
  shows "schema_ok (commit_update db u')"
proof -
  from assms(1) have d: "distinct (map user_id (rows db))" by (simp add: schema_ok_def)
  have "commit_update db u' = db\<lparr>rows := ys @ u' # zs\<rparr>"
    by (rule commit_update_split [OF d assms(2,3)])
  with assms show ?thesis by (simp add: schema_ok_def)
qed

section \<open>signup\<close>

text \<open>
  C4. The specification asks \<open>signup\<close> to fail with WeakPassword whenever the validator does not
  accept the password. On the empty password the validator raises, and so does
  \<open>signup\<close>: the request ends in IndexError, with the table untouched.
\<close>

theorem signup_empty_password_raises:
  "signup isupper isdigit db e [] = (db, Inl IndexError)"
  by (simp add: signup_def validate_password_def)

text \<open>
  On every other password \<open>signup\<close> does what the specification says: WeakPassword first,
  EmailTaken next, otherwise one new row with the next id, the email, the password and no
  reset token.
\<close>

lemma validate_password_nonempty:
  "p \<noteq> [] \<Longrightarrow> validate_password isupper isdigit p = Inr True \<or> validate_password isupper isdigit p = Inr False"
  by (cases p) (simp_all add: validate_password_def)

lemma signup_nonempty_password:
  assumes "p \<noteq> []"
  shows "signup isupper isdigit db e p =
     (if validate_password isupper isdigit p \<noteq> Inr True then (db, Inl WeakPassword)
      else if e \<in> set (map email (rows db)) then (db, Inl EmailTaken)
      else (\<lparr>rows = rows db @ [\<lparr>user_id = next_id db, email = e, password = p, reset_token = None\<rparr>],
             next_id = next_id db + 1\<rparr>,
            Inr (Message ''User registered successfully'')))"
proof (cases "find_by_email db e")
  case None
  then have n: "e \<notin> set (map email (rows db))"
    by (auto simp: find_by_email_def find_None_iff)
  from validate_password_nonempty [OF assms, of isupper isdigit] show ?thesis
  proof
    assume "validate_password isupper isdigit p = Inr True"
    with None n show ?thesis by (simp add: signup_def add_commit_def)
  next
    assume "validate_password isupper isdigit p = Inr False"
    then show ?thesis by (simp add: signup_def)
  qed
next
  case (Some u)
  then have n: "e \<in> set (map email (rows db))"
    by (auto simp: find_by_email_def find_Some_iff)
  from validate_password_nonempty [OF assms, of isupper isdigit] show ?thesis
  proof
    assume "validate_password isupper isdigit p = Inr True"
    with Some n show ?thesis by (simp add: signup_def)
  next
    assume "validate_password isupper isdigit p = Inr False"
    then show ?thesis by (simp add: signup_def)
  qed
qed

lemma signup_twice:
  assumes "validate_password isupper isdigit p = Inr True"
    and "e \<notin> set (map email (rows db))"
  shows "snd (signup isupper isdigit db e p) = Inr (Message ''User registered successfully'')"
    and "snd (signup isupper isdigit (fst (signup isupper isdigit db e p)) e p) = Inl EmailTaken"
proof -
  from assms(1) have ne: "p \<noteq> []" by (auto simp: validate_password_def)
  from assms show "snd (signup isupper isdigit db e p) = Inr (Message ''User registered successfully'')"
    by (simp add: signup_nonempty_password [OF ne])
  from assms show "snd (signup isupper isdigit (fst (signup isupper isdigit db e p)) e p) = Inl EmailTaken"
    by (simp add: signup_nonempty_password [OF ne])
qed

section \<open>signin\<close>

text \<open>
  C5. In a table with unique emails, \<open>signin\<close> succeeds exactly when some user has the
  email and that user's stored password equals the given one; in every other case,
  unknown email or wrong password alike, it raises the one exception InvalidCredentials.
  The table is never changed.
\<close>

theorem signin_iff:
  assumes "distinct (map email (rows db))"
  shows "signin db e p =
     (db, if \<exists>u \<in> set (rows db). email u = e \<and> password u = p
          then Inr (Message ''Login successful'') else Inl InvalidCredentials)"
proof (cases "find_by_email db e")
  case None
  then have "e \<notin> set (map email (rows db))" by (simp add: find_by_email_None_iff)
  then have "\<not> (\<exists>u \<in> set (rows db). email u = e \<and> password u = p)" by auto
  with None show ?thesis by (simp add: signin_def)
next
  case (Some u)
  then have u: "u \<in> set (rows db)" "email u = e" by (auto dest: find_by_email_SomeD)
  have "(\<exists>v \<in> set (rows db). email v = e \<and> password v = p) \<longleftrightarrow> password u = p"
  proof
    assume "\<exists>v \<in> set (rows db). email v = e \<and> password v = p"
    then obtain v where v: "v \<in> set (rows db)" "email v = e" "password v = p" by blast
    from find_by_email_member [OF assms v(1)] v(2) Some have "v = u" by simp
    with v show "password u = p" by simp
  next
    assume "password u = p"
    with u show "\<exists>v \<in> set (rows db). email v = e \<and> password v = p" by blast
  qed
  with Some show ?thesis by (simp add: signin_def)
qed

theorem signin_iff_witness:
  "distinct (map email (rows alice_db)) \<and>
   signin alice_db ''alice@example.com'' ''Secret1@'' = (alice_db, Inr (Message ''Login successful'')) \<and>
   signin alice_db ''alice@example.com'' ''secret1@'' = (alice_db, Inl InvalidCredentials) \<and>
   signin alice_db ''bob@example.com'' ''Secret1@'' = (alice_db, Inl InvalidCredentials)"
proof -
  have h: "distinct (map email (rows alice_db))" by (simp add: alice_db_def)
  have r: "rows alice_db = [alice]" by (simp add: alice_db_def)
  show ?thesis
    using h signin_iff [OF h, of "''alice@example.com''" "''Secret1@''"]
      signin_iff [OF h, of "''alice@example.com''" "''secret1@''"]
      signin_iff [OF h, of "''bob@example.com''" "''Secret1@''"]
    by (simp add: r alice_def)
qed

section \<open>Errors leave the table unchanged\<close>

text \<open>
  C10. Whenever a handler raises, whatever the exception, the table after the request is
  the table before it; \<open>signin\<close> never changes the table at all.
\<close>

theorem error_leaves_store_unchanged:
  "(snd (signup isupper isdigit db e p) = Inl ex \<longrightarrow> fst (signup isupper isdigit db e p) = db) \<and>
   fst (signin db e p) = db \<and>
   (snd (forget_password rnd db e) = Inl ex \<longrightarrow> fst (forget_password rnd db e) = db) \<and>
   (snd (reset_password isupper isdigit db t p) = Inl ex \<longrightarrow>
      fst (reset_password isupper isdigit db t p) = db)"
proof (intro conjI impI)
  assume "snd (signup isupper isdigit db e p) = Inl ex"
  then show "fst (signup isupper isdigit db e p) = db"
    by (auto simp: signup_def split: sum.splits option.splits if_splits)
next
  show "fst (signin db e p) = db"
    by (simp add: signin_def split: option.splits)
next
  assume "snd (forget_password rnd db e) = Inl ex"
  then show "fst (forget_password rnd db e) = db"
    by (auto simp: forget_password_def Let_def split: option.splits)
next
  assume "snd (reset_password isupper isdigit db t p) = Inl ex"
  then show "fst (reset_password isupper isdigit db t p) = db"
    by (auto simp: reset_password_def split: sum.splits option.splits if_splits)
qed

theorem error_leaves_store_unchanged_witness:
  "snd (signup ascii_isupper ascii_isdigit alice_db ''alice@example.com'' ''Secret1@'') = Inl EmailTaken \<and>
   fst (signup ascii_isupper ascii_isdigit alice_db ''alice@example.com'' ''Secret1@'') = alice_db \<and>
   snd (signup ascii_isupper ascii_isdigit alice_db ''bob@example.com'' ''secret'') = Inl WeakPassword \<and>
   fst (signup ascii_isupper ascii_isdigit alice_db ''bob@example.com'' ''secret'') = alice_db \<and>
   snd (forget_password zeros alice_db ''bob@example.com'') = Inl EmailNotFound \<and>
   fst (forget_password zeros alice_db ''bob@example.com'') = alice_db \<and>
   snd (reset_password ascii_isupper ascii_isdigit alice_db ''00'' ''Secret1@'') = Inl InvalidToken \<and>
   fst (reset_password ascii_isupper ascii_isdigit alice_db ''00'' ''Secret1@'') = alice_db"
proof -
  have a: "snd (signup ascii_isupper ascii_isdigit alice_db ''alice@example.com'' ''Secret1@'') = Inl EmailTaken"
    by (simp add: signup_def validate_ok find_by_email_def alice_db_def alice_def)
  have b: "snd (signup ascii_isupper ascii_isdigit alice_db ''bob@example.com'' ''secret'') = Inl WeakPassword"
    by (simp add: signup_def validate_weak)
  have c: "snd (forget_password zeros alice_db ''bob@example.com'') = Inl EmailNotFound"
    by (simp add: forget_password_def find_by_email_def alice_db_def alice_def)
  have d: "snd (reset_password ascii_isupper ascii_isdigit alice_db ''00'' ''Secret1@'') = Inl InvalidToken"
    by (simp add: reset_password_def find_by_reset_token_def alice_db_def alice_def)
  show ?thesis
    using a b c d
      error_leaves_store_unchanged [where isupper = ascii_isupper and isdigit = ascii_isdigit
        and db = alice_db and e = "''alice@example.com''" and p = "''Secret1@''" and ex = EmailTaken]
      error_leaves_store_unchanged [where isupper = ascii_isupper and isdigit = ascii_isdigit
        and db = alice_db and e = "''bob@example.com''" and p = "''secret''" and ex = WeakPassword]
      error_leaves_store_unchanged [where db = alice_db and e = "''bob@example.com''"
        and rnd = zeros and ex = EmailNotFound]
      error_leaves_store_unchanged [where isupper = ascii_isupper and isdigit = ascii_isdigit
        and db = alice_db and t = "''00''" and p = "''Secret1@''" and ex = InvalidToken]
    by simp
qed

section \<open>The declared constraints hold in every reachable table\<close>

lemma schema_ok_empty: "schema_ok empty_store"
  by (simp add: schema_ok_def empty_store_def)

lemma schema_ok_add_commit:
  assumes "schema_ok db" and "add_commit db e pw = Inr db'"
  shows "schema_ok db'"
proof -
  from assms(2) have n: "e \<notin> set (map email (rows db))"
    and eq: "db' = \<lparr>rows = rows db @ [\<lparr>user_id = next_id db, email = e, password = pw, reset_token = None\<rparr>],
                next_id = next_id db + 1\<rparr>"
    by (auto simp: add_commit_def split: if_splits)
  from assms(1) have lt: "\<forall>u \<in> set (rows db). user_id u < next_id db"
    by (simp add: schema_ok_def list_all_iff)
  then have "next_id db \<notin> set (map user_id (rows db))" by auto
  moreover from lt have "\<forall>u \<in> set (rows db). user_id u < next_id db + 1" by auto
  ultimately show ?thesis using assms(1) n
    by (simp add: eq schema_ok_def list_all_iff)
qed

lemma schema_ok_signup: "schema_ok db \<Longrightarrow> schema_ok (fst (signup isupper isdigit db e pw))"
  by (auto simp: signup_def split: sum.splits option.splits dest: schema_ok_add_commit)

lemma schema_ok_signin: "schema_ok db \<Longrightarrow> schema_ok (fst (signin db e pw))"
  by (simp add: signin_def split: option.splits)

lemma schema_ok_forget_password:
  assumes "schema_ok db"
  shows "schema_ok (fst (forget_password rnd db e))"
proof (cases "find_by_email db e")
  case None
  with assms show ?thesis by (simp add: forget_password_def)
next
  case (Some u)
  then obtain ys zs where "rows db = ys @ u # zs"
    unfolding find_by_email_def by (blast dest: find_first_split)
  from schema_ok_commit_update [OF assms this, of "u\<lparr>reset_token := Some (token_hex rnd 16)\<rparr>"] Some
  show ?thesis by (simp add: forget_password_def Let_def)
qed

lemma schema_ok_reset_password:
  assumes "schema_ok db"
  shows "schema_ok (fst (reset_password isupper isdigit db t pw))"
proof (cases "find_by_reset_token db t")
  case None
  with assms show ?thesis by (simp add: reset_password_def)
next
  case (Some u)
  then obtain ys zs where "rows db = ys @ u # zs"
    unfolding find_by_reset_token_def by (blast dest: find_first_split)
  from schema_ok_commit_update [OF assms this, of "u\<lparr>password := pw, reset_token := None\<rparr>"] Some assms
  show ?thesis by (simp add: reset_password_def split: sum.splits)
qed

lemma schema_ok_serve: "schema_ok db \<Longrightarrow> schema_ok (fst (serve isupper isdigit db r))"
  by (cases r)
    (simp_all add: schema_ok_signup schema_ok_signin schema_ok_forget_password
      schema_ok_reset_password)

lemma run_Cons:
  "run isupper isdigit db (r # rs) = run isupper isdigit (fst (serve isupper isdigit db r)) rs"
  by (simp add: run_def)

lemma run_Nil: "run isupper isdigit db [] = db"
  by (simp add: run_def)

lemma schema_ok_run: "schema_ok db \<Longrightarrow> schema_ok (run isupper isdigit db reqs)"
  by (induction reqs arbitrary: db) (simp_all add: run_Nil run_Cons schema_ok_serve)

text \<open>
  C8. In every table reached from the empty one by serving any sequence of requests to the
  four routes, no two rows have the same email.
\<close>

theorem email_unique_reachable:
  "distinct (map email (rows (run isupper isdigit empty_store reqs)))"
  using schema_ok_run [OF schema_ok_empty, of isupper isdigit reqs]
  by (simp add: schema_ok_def)

section \<open>forget\_password\<close>

text \<open>
  A token of \<open>n\<close> bytes is \<open>2 * n\<close> lowercase hexadecimal digits, and it determines
  the bytes it was rendered from.
\<close>

lemma hex_digit_in: "hex_digit n \<in> set ''0123456789abcdef''"
proof -
  have "n mod 16 < length ''0123456789abcdef''" by simp
  then show ?thesis unfolding hex_digit_def by (rule nth_mem)
qed

lemma length_hexlify: "length (hexlify bs) = 2 * length bs"
  by (induction bs) (simp_all add: hexlify_def hex_byte_def)

lemma set_pair_subset: "x \<in> A \<Longrightarrow> y \<in> A \<Longrightarrow> set [x, y] \<subseteq> A"
  by simp

lemma set_concat_subset: "(\<And>b. set (f b) \<subseteq> A) \<Longrightarrow> set (concat (map f bs)) \<subseteq> A"
  by auto

lemma set_hex_byte: "set (hex_byte b) \<subseteq> set ''0123456789abcdef''"
  unfolding hex_byte_def by (rule set_pair_subset [OF hex_digit_in hex_digit_in])

lemma set_hexlify: "set (hexlify bs) \<subseteq> set ''0123456789abcdef''"
  unfolding hexlify_def by (rule set_concat_subset [OF set_hex_byte])

lemma length_token_hex: "length (token_hex rnd n) = 2 * n"
  by (simp add: token_hex_def token_bytes_def length_hexlify)

lemma set_token_hex: "set (token_hex rnd n) \<subseteq> set ''0123456789abcdef''"
  unfolding token_hex_def by (rule set_hexlify)

lemma hex_digit_inj:
  assumes "hex_digit m = hex_digit n" and "m < 16" and "n < 16"
  shows "m = n"
proof -
  have d: "distinct ''0123456789abcdef''" by simp
  have l: "length ''0123456789abcdef'' = 16" by simp
  from assms have "''0123456789abcdef'' ! m = ''0123456789abcdef'' ! n"
    by (simp add: hex_digit_def)
  with d l assms(2,3) show ?thesis by (simp only: nth_eq_iff_index_eq)
qed

lemma hex_byte_inj:
  assumes "hex_byte a = hex_byte b"
  shows "a = b"
proof -
  have la: "unat a < 256" and lb: "unat b < 256"
    using unsigned_less [of a, where 'a = nat] unsigned_less [of b, where 'a = nat] by simp_all
  from assms have "hex_digit (unat a div 16) = hex_digit (unat b div 16)"
    and "hex_digit (unat a mod 16) = hex_digit (unat b mod 16)"
    by (simp_all add: hex_byte_def)
  with la lb have "unat a div 16 = unat b div 16" and "unat a mod 16 = unat b mod 16"
    by (auto intro!: hex_digit_inj simp: div_less_iff_less_mult)
  then have "unat a = unat b" by (metis div_mult_mod_eq)
  then show ?thesis by (simp add: word_unat_eq_iff)
qed

lemma hexlify_inj:
  "length bs = length cs \<Longrightarrow> hexlify bs = hexlify cs \<Longrightarrow> bs = cs"
proof (induction bs cs rule: list_induct2)
  case Nil
  then show ?case by simp
next
  case (Cons b bs c cs)
  from Cons.prems have "hex_byte b @ hexlify bs = hex_byte c @ hexlify cs"
    by (simp add: hexlify_def)
  moreover have "length (hex_byte b) = length (hex_byte c)" by (simp add: hex_byte_def)
  ultimately have "hex_byte b = hex_byte c" and "hexlify bs = hexlify cs" by simp_all
  with Cons.IH show ?case by (simp add: hex_byte_inj)
qed

lemma token_hex_eq_iff:
  "token_hex rnd n = token_hex rnd' n \<longleftrightarrow> (\<forall>k < n. rnd k = rnd' k)"
proof
  assume "token_hex rnd n = token_hex rnd' n"
  then have "map rnd [0..<n] = map rnd' [0..<n]"
    unfolding token_hex_def token_bytes_def by (intro hexlify_inj) simp_all
  then show "\<forall>k < n. rnd k = rnd' k" by (simp add: map_eq_conv)
next
  assume "\<forall>k < n. rnd k = rnd' k"
  then have "map rnd [0..<n] = map rnd' [0..<n]" by simp
  then show "token_hex rnd n = token_hex rnd' n" by (simp only: token_hex_def token_bytes_def)
qed

lemma forget_password_found:
  assumes "distinct (map user_id (rows db))" and "rows db = ys @ u # zs"
    and "email u = e" and "e \<notin> set (map email ys)"
  shows "forget_password rnd db e =
     (db\<lparr>rows := ys @ u\<lparr>reset_token := Some (token_hex rnd 16)\<rparr> # zs\<rparr>,
      Inr (ResetToken (token_hex rnd 16)))"
proof -
  from assms(3,4) have "find (\<lambda>x. email x = e) (ys @ u # zs) = Some u"
    by (intro find_in_split) (auto simp: image_iff)
  with assms(2) have f: "find_by_email db e = Some u" by (simp add: find_by_email_def)
  have "commit_update db (u\<lparr>reset_token := Some (token_hex rnd 16)\<rparr>) =
      db\<lparr>rows := ys @ u\<lparr>reset_token := Some (token_hex rnd 16)\<rparr> # zs\<rparr>"
    by (rule commit_update_split [OF assms(1,2)]) simp
  with f show ?thesis by (simp add: forget_password_def Let_def)
qed

lemma email_first_split:
  assumes "e \<in> set (map email xs)"
  shows "\<exists>ys u zs. xs = ys @ u # zs \<and> email u = e \<and> e \<notin> set (map email ys)"
proof -
  from assms have "find (\<lambda>x. email x = e) xs \<noteq> None" by (auto simp: find_None_iff)
  then obtain u where "find (\<lambda>x. email x = e) xs = Some u" by blast
  from find_first_split [OF this] obtain ys zs
    where "xs = ys @ u # zs" "email u = e" "\<forall>y \<in> set ys. email y \<noteq> e" by blast
  then have "xs = ys @ u # zs \<and> email u = e \<and> e \<notin> set (map email ys)" by auto
  then show ?thesis by blast
qed

text \<open>
  C6. \<open>forget_password\<close> raises EmailNotFound when no row has the email. Otherwise it
  renders sixteen bytes of the random source as a token of 32 hexadecimal digits, from
  which the sixteen bytes (128 bits) can be read back, writes it to the \<open>reset_token\<close> of
  the user with that email, leaving every other row and column as it was, and returns the
  same token.
\<close>

theorem forget_password_spec:
  assumes "distinct (map user_id (rows db))"
  shows "(e \<notin> set (map email (rows db)) \<longrightarrow> forget_password rnd db e = (db, Inl EmailNotFound)) \<and>
    (e \<in> set (map email (rows db)) \<longrightarrow>
       (\<exists>ys u zs. rows db = ys @ u # zs \<and> email u = e \<and> e \<notin> set (map email ys) \<and>
          forget_password rnd db e =
            (db\<lparr>rows := ys @ u\<lparr>reset_token := Some (token_hex rnd 16)\<rparr> # zs\<rparr>,
             Inr (ResetToken (token_hex rnd 16))) \<and>
          find_by_email (fst (forget_password rnd db e)) e =
            Some (u\<lparr>reset_token := Some (token_hex rnd 16)\<rparr>))) \<and>
    length (token_hex rnd 16) = 32 \<and>
    set (token_hex rnd 16) \<subseteq> set ''0123456789abcdef'' \<and>
    (\<forall>rnd'. token_hex rnd 16 = token_hex rnd' 16 \<longleftrightarrow> (\<forall>k < 16. rnd k = rnd' k))"
proof (intro conjI impI)
  assume "e \<notin> set (map email (rows db))"
  then have "find_by_email db e = None" by (simp add: find_by_email_None_iff)
  then show "forget_password rnd db e = (db, Inl EmailNotFound)"
    by (simp add: forget_password_def)
next
  assume "e \<in> set (map email (rows db))"
  from email_first_split [OF this] obtain ys u zs
    where s: "rows db = ys @ u # zs" "email u = e" "e \<notin> set (map email ys)" by blast
  let ?u' = "u\<lparr>reset_token := Some (token_hex rnd 16)\<rparr>"
  have r: "forget_password rnd db e = (db\<lparr>rows := ys @ ?u' # zs\<rparr>, Inr (ResetToken (token_hex rnd 16)))"
    by (rule forget_password_found [OF assms s])
  have "find (\<lambda>x. email x = e) (ys @ ?u' # zs) = Some ?u'"
    using s(2,3) by (intro find_in_split) (auto simp: image_iff)
  then have "find_by_email (fst (forget_password rnd db e)) e = Some ?u'"
    by (simp add: r find_by_email_def)
  with s r show "\<exists>ys u zs. rows db = ys @ u # zs \<and> email u = e \<and> e \<notin> set (map email ys) \<and>
          forget_password rnd db e =
            (db\<lparr>rows := ys @ u\<lparr>reset_token := Some (token_hex rnd 16)\<rparr> # zs\<rparr>,
             Inr (ResetToken (token_hex rnd 16))) \<and>
          find_by_email (fst (forget_password rnd db e)) e =
            Some (u\<lparr>reset_token := Some (token_hex rnd 16)\<rparr>)"
    by blast
next
  show "length (token_hex rnd 16) = 32" by (simp add: length_token_hex)
next
  show "set (token_hex rnd 16) \<subseteq> set ''0123456789abcdef''" by (rule set_token_hex)
next
  show "\<forall>rnd'. token_hex rnd 16 = token_hex rnd' 16 \<longleftrightarrow> (\<forall>k < 16. rnd k = rnd' k)"
    by (simp add: token_hex_eq_iff)
qed

theorem forget_password_spec_witness:
  "distinct (map user_id (rows alice_db)) \<and>
   forget_password steps17 alice_db ''alice@example.com'' =
     (alice_db\<lparr>rows := [alice\<lparr>reset_token := Some ''00112233445566778899aabbccddeeff''\<rparr>]\<rparr>,
      Inr (ResetToken ''00112233445566778899aabbccddeeff'')) \<and>
   forget_password steps17 alice_db ''bob@example.com'' = (alice_db, Inl EmailNotFound) \<and>
   length ''00112233445566778899aabbccddeeff'' = 32"
proof -
  have h: "distinct (map user_id (rows alice_db))" by (simp add: alice_db_def)
  have r: "rows alice_db = [alice]" by (simp add: alice_db_def)
  have m: "''alice@example.com'' \<in> set (map email (rows alice_db))"
    and n: "''bob@example.com'' \<notin> set (map email (rows alice_db))"
    by (simp_all add: r alice_def)
  from forget_password_spec [OF h, of "''alice@example.com''" steps17] m
  obtain ys u zs where s: "rows alice_db = ys @ u # zs"
    and f: "forget_password steps17 alice_db ''alice@example.com'' =
      (alice_db\<lparr>rows := ys @ u\<lparr>reset_token := Some (token_hex steps17 16)\<rparr> # zs\<rparr>,
       Inr (ResetToken (token_hex steps17 16)))"
    by blast
  from s have "ys = [] \<and> u = alice \<and> zs = []"
    by (auto simp: r Cons_eq_append_conv)
  with f have a: "forget_password steps17 alice_db ''alice@example.com'' =
     (alice_db\<lparr>rows := [alice\<lparr>reset_token := Some ''00112233445566778899aabbccddeeff''\<rparr>]\<rparr>,
      Inr (ResetToken ''00112233445566778899aabbccddeeff''))"
    by (simp add: token_hex_steps17)
  from forget_password_spec [OF h, of "''bob@example.com''" steps17] n
  have b: "forget_password steps17 alice_db ''bob@example.com'' = (alice_db, Inl EmailNotFound)"
    by blast
  from h a b show ?thesis by simp
qed

section \<open>reset\_password\<close>

lemma token_first_split:
  assumes "Some t \<in> set (map reset_token xs)"
  shows "\<exists>ys u zs. xs = ys @ u # zs \<and> reset_token u = Some t \<and> Some t \<notin> set (map reset_token ys)"
proof -
  from assms have "find (\<lambda>x. reset_token x = Some t) xs \<noteq> None"
    by (auto simp: find_None_iff)
  then obtain u where "find (\<lambda>x. reset_token x = Some t) xs = Some u" by blast
  from find_first_split [OF this] obtain ys zs
    where "xs = ys @ u # zs" "reset_token u = Some t" "\<forall>y \<in> set ys. reset_token y \<noteq> Some t"
    by blast
  then have "xs = ys @ u # zs \<and> reset_token u = Some t \<and> Some t \<notin> set (map reset_token ys)"
    by (auto simp: image_iff)
  then show ?thesis by blast
qed

lemma find_by_reset_token_None_iff:
  "find_by_reset_token db t = None \<longleftrightarrow> Some t \<notin> set (map reset_token (rows db))"
  by (auto simp: find_by_reset_token_def find_None_iff image_iff)

lemma find_by_reset_token_split:
  assumes "rows db = ys @ u # zs" and "reset_token u = Some t"
    and "Some t \<notin> set (map reset_token ys)"
  shows "find_by_reset_token db t = Some u"
proof -
  from assms(2,3) have "find (\<lambda>x. reset_token x = Some t) (ys @ u # zs) = Some u"
    by (intro find_in_split) (auto simp: image_iff)
  with assms(1) show ?thesis by (simp add: find_by_reset_token_def)
qed

lemma reset_password_found:
  assumes "distinct (map user_id (rows db))" and "rows db = ys @ u # zs"
    and "reset_token u = Some t" and "Some t \<notin> set (map reset_token ys)"
    and "validate_password isupper isdigit p = Inr True"
  shows "reset_password isupper isdigit db t p =
     (db\<lparr>rows := ys @ u\<lparr>password := p, reset_token := None\<rparr> # zs\<rparr>,
      Inr (Message ''Password reset successfully''))"
proof -
  have f: "find_by_reset_token db t = Some u"
    by (rule find_by_reset_token_split [OF assms(2,3,4)])
  have "commit_update db (u\<lparr>password := p, reset_token := None\<rparr>) =
      db\<lparr>rows := ys @ u\<lparr>password := p, reset_token := None\<rparr> # zs\<rparr>"
    by (rule commit_update_split [OF assms(1,2)]) simp
  with f assms(5) show ?thesis by (simp add: reset_password_def)
qed

text \<open>
  C3, as amended. In every table with unique ids, for every token and password:
  \<open>reset_password\<close> raises InvalidToken when no row holds the token; raises WeakPassword
  when some row holds it and the validator returns false for the password; and when the
  validator returns true it writes the password to the first row holding the token, sets
  that row's \<open>reset_token\<close> to NULL, changes nothing else and returns success. A second
  redemption of the same token then raises InvalidToken, provided no other row held the
  token. (The empty password, on which the validator raises, is left out.)
\<close>

theorem reset_password_spec:
  assumes "distinct (map user_id (rows db))"
  shows
   "(Some t \<notin> set (map reset_token (rows db)) \<longrightarrow>
       reset_password isupper isdigit db t p = (db, Inl InvalidToken)) \<and>
    (Some t \<in> set (map reset_token (rows db)) \<and> validate_password isupper isdigit p = Inr False \<longrightarrow>
       reset_password isupper isdigit db t p = (db, Inl WeakPassword)) \<and>
    (Some t \<in> set (map reset_token (rows db)) \<and> validate_password isupper isdigit p = Inr True \<longrightarrow>
       (\<exists>ys u zs. rows db = ys @ u # zs \<and> reset_token u = Some t \<and>
          Some t \<notin> set (map reset_token ys) \<and>
          reset_password isupper isdigit db t p =
            (db\<lparr>rows := ys @ u\<lparr>password := p, reset_token := None\<rparr> # zs\<rparr>,
             Inr (Message ''Password reset successfully'')) \<and>
          (Some t \<notin> set (map reset_token zs) \<longrightarrow>
             (\<forall>p'. reset_password isupper isdigit
                     (fst (reset_password isupper isdigit db t p)) t p' =
                   (fst (reset_password isupper isdigit db t p), Inl InvalidToken)))))"
proof (intro conjI impI)
  assume "Some t \<notin> set (map reset_token (rows db))"
  then have "find_by_reset_token db t = None" by (simp add: find_by_reset_token_None_iff)
  then show "reset_password isupper isdigit db t p = (db, Inl InvalidToken)"
    by (simp add: reset_password_def)
next
  assume a: "Some t \<in> set (map reset_token (rows db)) \<and> validate_password isupper isdigit p = Inr False"
  then have "find_by_reset_token db t \<noteq> None" by (simp add: find_by_reset_token_None_iff)
  with a show "reset_password isupper isdigit db t p = (db, Inl WeakPassword)"
    by (auto simp: reset_password_def)
next
  assume a: "Some t \<in> set (map reset_token (rows db)) \<and> validate_password isupper isdigit p = Inr True"
  then obtain ys u zs where s: "rows db = ys @ u # zs" "reset_token u = Some t"
      "Some t \<notin> set (map reset_token ys)"
    using token_first_split [of t "rows db"] by blast
  let ?db' = "db\<lparr>rows := ys @ u\<lparr>password := p, reset_token := None\<rparr> # zs\<rparr>"
  from a have v: "validate_password isupper isdigit p = Inr True" by simp
  have r: "reset_password isupper isdigit db t p = (?db', Inr (Message ''Password reset successfully''))"
    by (rule reset_password_found [OF assms s v])
  have again: "reset_password isupper isdigit ?db' t p' = (?db', Inl InvalidToken)"
    if "Some t \<notin> set (map reset_token zs)" for p'
  proof -
    from that s(3) have "Some t \<notin> set (map reset_token (rows ?db'))" by simp
    then have "find_by_reset_token ?db' t = None" by (simp add: find_by_reset_token_None_iff)
    then show ?thesis by (simp add: reset_password_def)
  qed
  have "rows db = ys @ u # zs \<and> reset_token u = Some t \<and>
          Some t \<notin> set (map reset_token ys) \<and>
          reset_password isupper isdigit db t p =
            (db\<lparr>rows := ys @ u\<lparr>password := p, reset_token := None\<rparr> # zs\<rparr>,
             Inr (Message ''Password reset successfully'')) \<and>
          (Some t \<notin> set (map reset_token zs) \<longrightarrow>
             (\<forall>p'. reset_password isupper isdigit
                     (fst (reset_password isupper isdigit db t p)) t p' =
                   (fst (reset_password isupper isdigit db t p), Inl InvalidToken)))"
    using s r again by simp
  then show "\<exists>ys u zs. rows db = ys @ u # zs \<and> reset_token u = Some t \<and>
          Some t \<notin> set (map reset_token ys) \<and>
          reset_password isupper isdigit db t p =
            (db\<lparr>rows := ys @ u\<lparr>password := p, reset_token := None\<rparr> # zs\<rparr>,
             Inr (Message ''Password reset successfully'')) \<and>
          (Some t \<notin> set (map reset_token zs) \<longrightarrow>
             (\<forall>p'. reset_password isupper isdigit
                     (fst (reset_password isupper isdigit db t p)) t p' =
                   (fst (reset_password isupper isdigit db t p), Inl InvalidToken)))"
    by blast
qed

theorem reset_password_spec_witness:
  "distinct (map user_id (rows pending_db)) \<and>
   reset_password ascii_isupper ascii_isdigit pending_db ''ffff'' ''NewPass2@'' =
     (pending_db, Inl InvalidToken) \<and>
   reset_password ascii_isupper ascii_isdigit pending_db
       ''00112233445566778899aabbccddeeff'' ''secret'' = (pending_db, Inl WeakPassword) \<and>
   reset_password ascii_isupper ascii_isdigit pending_db
       ''00112233445566778899aabbccddeeff'' ''NewPass2@'' =
     (pending_db\<lparr>rows := [alice\<lparr>password := ''NewPass2@''\<rparr>]\<rparr>,
      Inr (Message ''Password reset successfully'')) \<and>
   reset_password ascii_isupper ascii_isdigit
       (pending_db\<lparr>rows := [alice\<lparr>password := ''NewPass2@''\<rparr>]\<rparr>)
       ''00112233445566778899aabbccddeeff'' ''NewPass2@'' =
     (pending_db\<lparr>rows := [alice\<lparr>password := ''NewPass2@''\<rparr>]\<rparr>, Inl InvalidToken)"
proof -
  let ?t = "''00112233445566778899aabbccddeeff''"
  have h: "distinct (map user_id (rows pending_db))"
    by (simp add: pending_db_def)
  have r: "rows pending_db = [alice\<lparr>reset_token := Some ?t\<rparr>]"
    by (simp add: pending_db_def)
  have a: "Some ''ffff'' \<notin> set (map reset_token (rows pending_db))"
    and b: "Some ?t \<in> set (map reset_token (rows pending_db))"
    by (simp_all add: r)
  note weak = reset_password_spec [OF h, of ?t ascii_isupper ascii_isdigit "''secret''"]
  note good = reset_password_spec [OF h, of ?t ascii_isupper ascii_isdigit "''NewPass2@''"]
  from a reset_password_spec [OF h, of "''ffff''" ascii_isupper ascii_isdigit "''NewPass2@''"]
  have c1: "reset_password ascii_isupper ascii_isdigit pending_db ''ffff'' ''NewPass2@'' =
     (pending_db, Inl InvalidToken)" by blast
  from b validate_weak weak
  have c2: "reset_password ascii_isupper ascii_isdigit pending_db ?t ''secret'' =
     (pending_db, Inl WeakPassword)" by blast
  from b validate_new good obtain ys u zs
    where s: "rows pending_db = ys @ u # zs"
      and f: "reset_password ascii_isupper ascii_isdigit pending_db ?t ''NewPass2@'' =
        (pending_db\<lparr>rows := ys @ u\<lparr>password := ''NewPass2@'', reset_token := None\<rparr> # zs\<rparr>,
         Inr (Message ''Password reset successfully''))"
      and g: "Some ?t \<notin> set (map reset_token zs) \<longrightarrow>
          (\<forall>p'. reset_password ascii_isupper ascii_isdigit
                  (fst (reset_password ascii_isupper ascii_isdigit pending_db ?t ''NewPass2@'')) ?t p' =
                (fst (reset_password ascii_isupper ascii_isdigit pending_db ?t ''NewPass2@''),
                 Inl InvalidToken))"
    by blast
  from s have e: "ys = [] \<and> u = alice\<lparr>reset_token := Some ?t\<rparr> \<and> zs = []"
    by (auto simp: r Cons_eq_append_conv)
  have u: "alice\<lparr>reset_token := Some ?t, password := ''NewPass2@'', reset_token := None\<rparr> =
      alice\<lparr>password := ''NewPass2@''\<rparr>"
    by (simp add: alice_def)
  from f e u have c3: "reset_password ascii_isupper ascii_isdigit pending_db ?t ''NewPass2@'' =
     (pending_db\<lparr>rows := [alice\<lparr>password := ''NewPass2@''\<rparr>]\<rparr>,
      Inr (Message ''Password reset successfully''))" by simp
  from g e have "reset_password ascii_isupper ascii_isdigit
      (fst (reset_password ascii_isupper ascii_isdigit pending_db ?t ''NewPass2@'')) ?t ''NewPass2@'' =
    (fst (reset_password ascii_isupper ascii_isdigit pending_db ?t ''NewPass2@''), Inl InvalidToken)"
    by simp
  then have c4: "reset_password ascii_isupper ascii_isdigit
       (pending_db\<lparr>rows := [alice\<lparr>password := ''NewPass2@''\<rparr>]\<rparr>) ?t ''NewPass2@'' =
     (pending_db\<lparr>rows := [alice\<lparr>password := ''NewPass2@''\<rparr>]\<rparr>, Inl InvalidToken)"
    by (simp add: c3)
  from h c1 c2 c3 c4 show ?thesis by simp
qed

text \<open>
  The statement without that proviso fails where two rows hold the same token, which no
  constraint of the table excludes and which two colliding draws of the random source
  produce from the empty table: the first redemption succeeds and so does the second.
\<close>

lemma twins_db_reachable:
  "run ascii_isupper ascii_isdigit empty_store
     [Signup ''alice@example.com'' ''Secret1@'', Signup ''bob@example.com'' ''Hunter2@'',
      ForgetPassword ''alice@example.com'' zeros, ForgetPassword ''bob@example.com'' zeros] = twins_db"
  by (simp add: run_def signup_def validate_ok validate_hunter find_by_email_def empty_store_def
      add_commit_def forget_password_def commit_update_def token_hex_zeros Let_def
      twins_db_def alice_def bob_def)

theorem reset_password_twice_counterexample:
  "schema_ok twins_db \<and>
   snd (reset_password ascii_isupper ascii_isdigit twins_db
          ''00000000000000000000000000000000'' ''NewPass2@'') =
     Inr (Message ''Password reset successfully'') \<and>
   snd (reset_password ascii_isupper ascii_isdigit
          (fst (reset_password ascii_isupper ascii_isdigit twins_db
                  ''00000000000000000000000000000000'' ''NewPass2@''))
          ''00000000000000000000000000000000'' ''NewPass2@'') =
     Inr (Message ''Password reset successfully'') \<and>
   snd (reset_password ascii_isupper ascii_isdigit
          (fst (reset_password ascii_isupper ascii_isdigit twins_db
                  ''00000000000000000000000000000000'' ''NewPass2@''))
          ''00000000000000000000000000000000'' ''NewPass2@'') \<noteq> Inl InvalidToken"
  by (simp add: reset_password_def find_by_reset_token_def validate_new commit_update_def
      twins_db_def alice_def bob_def schema_ok_def)

text \<open>On the empty password the validator raises here as well, once the token is found.\<close>

lemma reset_password_empty_password_raises:
  "Some t \<in> set (map reset_token (rows db)) \<Longrightarrow>
   reset_password isupper isdigit db t [] = (db, Inl IndexError)"
proof -
  assume "Some t \<in> set (map reset_token (rows db))"
  then have "find_by_reset_token db t \<noteq> None" by (simp add: find_by_reset_token_None_iff)
  then show ?thesis by (auto simp: reset_password_def validate_password_def)
qed

section \<open>A second request for a reset\<close>

lemma reset_password_succeeds:
  assumes "distinct (map user_id (rows db))" and "Some t \<in> set (map reset_token (rows db))"
    and "validate_password isupper isdigit p = Inr True"
  shows "snd (reset_password isupper isdigit db t p) = Inr (Message ''Password reset successfully'')"
proof -
  from token_first_split [OF assms(2)] obtain ys u zs
    where s: "rows db = ys @ u # zs" "reset_token u = Some t" "Some t \<notin> set (map reset_token ys)"
    by blast
  from reset_password_found [OF assms(1) s assms(3)] show ?thesis by simp
qed

lemma reset_password_unknown:
  "Some t \<notin> set (map reset_token (rows db)) \<Longrightarrow>
   reset_password isupper isdigit db t p = (db, Inl InvalidToken)"
proof -
  assume "Some t \<notin> set (map reset_token (rows db))"
  then have "find_by_reset_token db t = None" by (simp add: find_by_reset_token_None_iff)
  then show ?thesis by (simp add: reset_password_def)
qed

lemma reset_password_invalid_token_iff:
  assumes "distinct (map user_id (rows db))" and "validate_password isupper isdigit p = Inr True"
  shows "reset_password isupper isdigit db t p = (db, Inl InvalidToken) \<longleftrightarrow>
     Some t \<notin> set (map reset_token (rows db))"
proof
  assume r: "reset_password isupper isdigit db t p = (db, Inl InvalidToken)"
  show "Some t \<notin> set (map reset_token (rows db))"
  proof
    assume "Some t \<in> set (map reset_token (rows db))"
    from reset_password_succeeds [OF assms(1) this assms(2)] r show False by simp
  qed
next
  assume "Some t \<notin> set (map reset_token (rows db))"
  then show "reset_password isupper isdigit db t p = (db, Inl InvalidToken)"
    by (rule reset_password_unknown)
qed

text \<open>
  C7, as amended. Let a user with email \<open>e\<close> ask for a reset twice in a row, the
  requests returning the tokens T1 and T2. The user's row then holds T2, and redeeming T2
  with a valid password succeeds. Redeeming T1 raises InvalidToken if T1 and T2 differ
  and no other user held T1 when it was generated; with a valid password it does so
  only then.
\<close>

theorem stale_token_invalid:
  assumes "schema_ok db" and "e \<in> set (map email (rows db))"
  shows "let db1 = fst (forget_password rnd1 db e); db2 = fst (forget_password rnd2 db1 e) in
      snd (forget_password rnd1 db e) = Inr (ResetToken (token_hex rnd1 16)) \<and>
      snd (forget_password rnd2 db1 e) = Inr (ResetToken (token_hex rnd2 16)) \<and>
      map_option reset_token (find_by_email db2 e) = Some (Some (token_hex rnd2 16)) \<and>
      (validate_password isupper isdigit p = Inr True \<longrightarrow>
         snd (reset_password isupper isdigit db2 (token_hex rnd2 16) p) =
           Inr (Message ''Password reset successfully'')) \<and>
      (token_hex rnd1 16 \<noteq> token_hex rnd2 16 \<and> draw_ok db (ForgetPassword e rnd1) \<longrightarrow>
         reset_password isupper isdigit db2 (token_hex rnd1 16) p = (db2, Inl InvalidToken)) \<and>
      (validate_password isupper isdigit p = Inr True \<and>
       reset_password isupper isdigit db2 (token_hex rnd1 16) p = (db2, Inl InvalidToken) \<longrightarrow>
         token_hex rnd1 16 \<noteq> token_hex rnd2 16 \<and> draw_ok db (ForgetPassword e rnd1))"
proof -
  let ?T1 = "token_hex rnd1 16" and ?T2 = "token_hex rnd2 16"
  from assms(1) have ids: "distinct (map user_id (rows db))"
    and ems: "distinct (map email (rows db))" by (simp_all add: schema_ok_def)
  from email_first_split [OF assms(2)] obtain ys u zs
    where s: "rows db = ys @ u # zs" "email u = e" "e \<notin> set (map email ys)" by blast
  from ems s have nz: "e \<notin> set (map email zs)" by auto
  from s(3) nz have ne: "\<forall>v \<in> set ys \<union> set zs. email v \<noteq> e" by (auto simp: image_iff)
  let ?u1 = "u\<lparr>reset_token := Some ?T1\<rparr>" and ?u2 = "u\<lparr>reset_token := Some ?T2\<rparr>"
  let ?db1 = "db\<lparr>rows := ys @ ?u1 # zs\<rparr>" and ?db2 = "db\<lparr>rows := ys @ ?u2 # zs\<rparr>"
  have f1: "forget_password rnd1 db e = (?db1, Inr (ResetToken ?T1))"
    by (rule forget_password_found [OF ids s])
  have ids1: "distinct (map user_id (rows ?db1))" using ids s(1) by simp
  have "forget_password rnd2 ?db1 e =
      (?db1\<lparr>rows := ys @ ?u1\<lparr>reset_token := Some ?T2\<rparr> # zs\<rparr>, Inr (ResetToken ?T2))"
    using s by (intro forget_password_found [OF ids1]) simp_all
  then have f2: "forget_password rnd2 ?db1 e = (?db2, Inr (ResetToken ?T2))" by simp
  have ids2: "distinct (map user_id (rows ?db2))" using ids s(1) by simp
  have "find (\<lambda>x. email x = e) (ys @ ?u2 # zs) = Some ?u2"
    using s(2,3) by (intro find_in_split) (auto simp: image_iff)
  then have o: "map_option reset_token (find_by_email ?db2 e) = Some (Some ?T2)"
    by (simp add: find_by_email_def)
  have held2: "Some ?T2 \<in> set (map reset_token (rows ?db2))" by simp
  have r2: "snd (reset_password isupper isdigit ?db2 ?T2 p) =
      Inr (Message ''Password reset successfully'')"
    if "validate_password isupper isdigit p = Inr True"
    by (rule reset_password_succeeds [OF ids2 held2 that])
  have draw: "draw_ok db (ForgetPassword e rnd1) \<longleftrightarrow>
      (\<forall>v \<in> set ys \<union> set zs. reset_token v \<noteq> Some ?T1)"
    using s(1,2) ne by (auto simp: list_all_iff)
  have held1: "Some ?T1 \<notin> set (map reset_token (rows ?db2)) \<longleftrightarrow>
      ?T1 \<noteq> ?T2 \<and> draw_ok db (ForgetPassword e rnd1)"
    unfolding draw by (auto simp: image_iff)
  have r1: "reset_password isupper isdigit ?db2 ?T1 p = (?db2, Inl InvalidToken)"
    if "?T1 \<noteq> ?T2 \<and> draw_ok db (ForgetPassword e rnd1)"
    using that held1 by (intro reset_password_unknown) simp
  have r3: "?T1 \<noteq> ?T2 \<and> draw_ok db (ForgetPassword e rnd1)"
    if "validate_password isupper isdigit p = Inr True"
      and "reset_password isupper isdigit ?db2 ?T1 p = (?db2, Inl InvalidToken)"
    using reset_password_invalid_token_iff [OF ids2 that(1), of ?T1] that(2) held1 by simp
  have main: "snd (forget_password rnd1 db e) = Inr (ResetToken ?T1) \<and>
      snd (forget_password rnd2 ?db1 e) = Inr (ResetToken ?T2) \<and>
      map_option reset_token (find_by_email ?db2 e) = Some (Some ?T2) \<and>
      (validate_password isupper isdigit p = Inr True \<longrightarrow>
         snd (reset_password isupper isdigit ?db2 ?T2 p) =
           Inr (Message ''Password reset successfully'')) \<and>
      (?T1 \<noteq> ?T2 \<and> draw_ok db (ForgetPassword e rnd1) \<longrightarrow>
         reset_password isupper isdigit ?db2 ?T1 p = (?db2, Inl InvalidToken)) \<and>
      (validate_password isupper isdigit p = Inr True \<and>
       reset_password isupper isdigit ?db2 ?T1 p = (?db2, Inl InvalidToken) \<longrightarrow>
         ?T1 \<noteq> ?T2 \<and> draw_ok db (ForgetPassword e rnd1))"
  proof (intro conjI impI)
    show "snd (forget_password rnd1 db e) = Inr (ResetToken ?T1)" by (simp only: f1 snd_conv)
    show "snd (forget_password rnd2 ?db1 e) = Inr (ResetToken ?T2)" by (simp only: f2 snd_conv)
    show "map_option reset_token (find_by_email ?db2 e) = Some (Some ?T2)" by (rule o)
    show "snd (reset_password isupper isdigit ?db2 ?T2 p) =
        Inr (Message ''Password reset successfully'')"
      if "validate_password isupper isdigit p = Inr True" by (rule r2 [OF that])
    show "reset_password isupper isdigit ?db2 ?T1 p = (?db2, Inl InvalidToken)"
      if "?T1 \<noteq> ?T2 \<and> draw_ok db (ForgetPassword e rnd1)" by (rule r1 [OF that])
    show "?T1 \<noteq> ?T2"
      if "validate_password isupper isdigit p = Inr True \<and>
       reset_password isupper isdigit ?db2 ?T1 p = (?db2, Inl InvalidToken)"
      by (rule conjunct1 [OF r3 [OF conjunct1 [OF that] conjunct2 [OF that]]])
    show "draw_ok db (ForgetPassword e rnd1)"
      if "validate_password isupper isdigit p = Inr True \<and>
       reset_password isupper isdigit ?db2 ?T1 p = (?db2, Inl InvalidToken)"
      by (rule conjunct2 [OF r3 [OF conjunct1 [OF that] conjunct2 [OF that]]])
  qed
  have e1: "fst (forget_password rnd1 db e) = ?db1" by (simp only: f1 fst_conv)
  have e2: "fst (forget_password rnd2 ?db1 e) = ?db2" by (simp only: f2 fst_conv)
  show ?thesis unfolding Let_def e1 e2 by (rule main)
qed

theorem stale_token_invalid_witness:
  "schema_ok alice_db \<and>
   snd (forget_password zeros alice_db ''alice@example.com'') =
     Inr (ResetToken ''00000000000000000000000000000000'') \<and>
   snd (forget_password steps17 (fst (forget_password zeros alice_db ''alice@example.com''))
          ''alice@example.com'') = Inr (ResetToken ''00112233445566778899aabbccddeeff'') \<and>
   snd (reset_password ascii_isupper ascii_isdigit
          (fst (forget_password steps17 (fst (forget_password zeros alice_db ''alice@example.com''))
                  ''alice@example.com''))
          ''00000000000000000000000000000000'' ''NewPass2@'') = Inl InvalidToken \<and>
   snd (reset_password ascii_isupper ascii_isdigit
          (fst (forget_password steps17 (fst (forget_password zeros alice_db ''alice@example.com''))
                  ''alice@example.com''))
          ''00112233445566778899aabbccddeeff'' ''NewPass2@'') =
     Inr (Message ''Password reset successfully'')"
proof -
  have a: "schema_ok alice_db" by (simp add: schema_ok_def alice_db_def alice_def)
  have b: "''alice@example.com'' \<in> set (map email (rows alice_db))"
    by (simp add: alice_db_def alice_def)
  have c: "token_hex zeros 16 \<noteq> token_hex steps17 16"
    by (simp add: token_hex_zeros token_hex_steps17)
  have d: "draw_ok alice_db (ForgetPassword ''alice@example.com'' zeros)"
    by (simp add: alice_db_def alice_def)
  note t = stale_token_invalid [OF a b, of zeros steps17 ascii_isupper ascii_isdigit
      "''NewPass2@''", unfolded Let_def]
  from t have t1: "snd (forget_password zeros alice_db ''alice@example.com'') =
      Inr (ResetToken (token_hex zeros 16))" by (rule conjunct1)
  from t have t2: "snd (forget_password steps17 (fst (forget_password zeros alice_db ''alice@example.com''))
      ''alice@example.com'') = Inr (ResetToken (token_hex steps17 16))" by blast
  from t c d have "reset_password ascii_isupper ascii_isdigit
      (fst (forget_password steps17 (fst (forget_password zeros alice_db ''alice@example.com''))
              ''alice@example.com''))
      (token_hex zeros 16) ''NewPass2@'' =
    (fst (forget_password steps17 (fst (forget_password zeros alice_db ''alice@example.com''))
              ''alice@example.com''), Inl InvalidToken)" by blast
  then have t3: "snd (reset_password ascii_isupper ascii_isdigit
      (fst (forget_password steps17 (fst (forget_password zeros alice_db ''alice@example.com''))
              ''alice@example.com''))
      (token_hex zeros 16) ''NewPass2@'') = Inl InvalidToken" by (simp only: snd_conv)
  from t validate_new have t4: "snd (reset_password ascii_isupper ascii_isdigit
      (fst (forget_password steps17 (fst (forget_password zeros alice_db ''alice@example.com''))
              ''alice@example.com''))
      (token_hex steps17 16) ''NewPass2@'') = Inr (Message ''Password reset successfully'')"
    by blast
  from a t1 t2 t3 t4 show ?thesis by (simp only: token_hex_zeros token_hex_steps17 simp_thms)
qed

text \<open>
  Without the proviso the statement fails. Here bob holds a pending token when alice's first
  request draws the same sixteen bytes; her second request draws others. The first token
  is then still redeemed with success, against bob's row.
\<close>

theorem stale_token_counterexample:
  "snd (forget_password zeros bob_pending_db ''alice@example.com'') =
     Inr (ResetToken ''00000000000000000000000000000000'') \<and>
   snd (forget_password steps17 (fst (forget_password zeros bob_pending_db ''alice@example.com''))
          ''alice@example.com'') = Inr (ResetToken ''00112233445566778899aabbccddeeff'') \<and>
   snd (reset_password ascii_isupper ascii_isdigit
          (fst (forget_password steps17 (fst (forget_password zeros bob_pending_db ''alice@example.com''))
                  ''alice@example.com''))
          ''00000000000000000000000000000000'' ''NewPass2@'') =
     Inr (Message ''Password reset successfully'') \<and>
   snd (reset_password ascii_isupper ascii_isdigit
          (fst (forget_password steps17 (fst (forget_password zeros bob_pending_db ''alice@example.com''))
                  ''alice@example.com''))
          ''00000000000000000000000000000000'' ''NewPass2@'') \<noteq> Inl InvalidToken"
  by (simp add: forget_password_def find_by_email_def commit_update_def token_hex_zeros
      token_hex_steps17 Let_def bob_pending_db_def alice_def bob_def reset_password_def
      find_by_reset_token_def validate_new)

lemma bob_pending_db_reachable:
  "run ascii_isupper ascii_isdigit empty_store
     [Signup ''alice@example.com'' ''Secret1@'', Signup ''bob@example.com'' ''Hunter2@'',
      ForgetPassword ''bob@example.com'' zeros] = bob_pending_db"
  by (simp add: run_def signup_def validate_ok validate_hunter find_by_email_def empty_store_def
      add_commit_def forget_password_def commit_update_def token_hex_zeros Let_def
      bob_pending_db_def alice_def bob_def)

text \<open>The same happens when the two requests of one user draw the same bytes.\<close>

lemma same_draw_redeems:
  "snd (forget_password zeros alice_db ''alice@example.com'') =
     Inr (ResetToken ''00000000000000000000000000000000'') \<and>
   snd (forget_password zeros (fst (forget_password zeros alice_db ''alice@example.com''))
          ''alice@example.com'') = Inr (ResetToken ''00000000000000000000000000000000'') \<and>
   snd (reset_password ascii_isupper ascii_isdigit
          (fst (forget_password zeros (fst (forget_password zeros alice_db ''alice@example.com''))
                  ''alice@example.com''))
          ''00000000000000000000000000000000'' ''NewPass2@'') =
     Inr (Message ''Password reset successfully'')"
  by (simp add: forget_password_def find_by_email_def commit_update_def token_hex_zeros
      Let_def alice_db_def alice_def reset_password_def find_by_reset_token_def validate_new)

lemma pending_db_reachable:
  "fst (forget_password steps17 alice_db ''alice@example.com'') = pending_db"
  by (simp add: forget_password_def find_by_email_def commit_update_def token_hex_steps17
      Let_def alice_db_def pending_db_def alice_def)

section \<open>At most one holder of a reset token\<close>

lemma held_tokens_split:
  "rows db = ys @ u # zs \<Longrightarrow>
   held_tokens db = List.map_filter reset_token ys @
     (case reset_token u of None \<Rightarrow> [] | Some t \<Rightarrow> [t]) @ List.map_filter reset_token zs"
  by (simp add: held_tokens_def List.map_filter_def split: option.splits)

lemma set_map_filter_tokens:
  "t \<in> set (List.map_filter reset_token xs) \<longleftrightarrow> (\<exists>v \<in> set xs. reset_token v = Some t)"
  by (induction xs) (auto split: option.splits)

lemma tokens_unique_clear:
  assumes "tokens_unique db" and "rows db = ys @ u # zs"
  shows "tokens_unique (db\<lparr>rows := ys @ u\<lparr>password := p, reset_token := None\<rparr> # zs\<rparr>)"
proof -
  from assms have "distinct (List.map_filter reset_token ys @
     (case reset_token u of None \<Rightarrow> [] | Some t \<Rightarrow> [t]) @ List.map_filter reset_token zs)"
    by (simp add: tokens_unique_def held_tokens_split)
  then have "distinct (List.map_filter reset_token ys @ List.map_filter reset_token zs)"
    by (auto split: option.splits)
  then show ?thesis
    by (simp add: tokens_unique_def held_tokens_split [of _ ys "u\<lparr>password := p, reset_token := None\<rparr>" zs])
qed

lemma tokens_unique_assign:
  assumes "tokens_unique db" and "rows db = ys @ u # zs"
    and "\<forall>v \<in> set ys \<union> set zs. reset_token v \<noteq> Some t"
  shows "tokens_unique (db\<lparr>rows := ys @ u\<lparr>reset_token := Some t\<rparr> # zs\<rparr>)"
proof -
  from assms(1,2) have "distinct (List.map_filter reset_token ys @
     (case reset_token u of None \<Rightarrow> [] | Some t \<Rightarrow> [t]) @ List.map_filter reset_token zs)"
    by (simp add: tokens_unique_def held_tokens_split)
  then have d: "distinct (List.map_filter reset_token ys @ List.map_filter reset_token zs)"
    by (auto split: option.splits)
  from assms(3) have "t \<notin> set (List.map_filter reset_token ys)"
    and "t \<notin> set (List.map_filter reset_token zs)"
    by (auto simp: set_map_filter_tokens)
  with d show ?thesis
    by (simp add: tokens_unique_def held_tokens_split [of _ ys "u\<lparr>reset_token := Some t\<rparr>" zs])
qed

lemma tokens_unique_signup:
  "tokens_unique db \<Longrightarrow> tokens_unique (fst (signup isupper isdigit db e pw))"
  by (auto simp: signup_def add_commit_def tokens_unique_def held_tokens_def List.map_filter_def
      split: sum.splits option.splits if_splits)

lemma tokens_unique_reset_password:
  assumes "schema_ok db" and "tokens_unique db"
  shows "tokens_unique (fst (reset_password isupper isdigit db t pw))"
proof (cases "Some t \<in> set (map reset_token (rows db)) \<and> validate_password isupper isdigit pw = Inr True")
  case True
  from assms(1) have ids: "distinct (map user_id (rows db))" by (simp add: schema_ok_def)
  from True token_first_split [of t "rows db"] obtain ys u zs
    where s: "rows db = ys @ u # zs" "reset_token u = Some t" "Some t \<notin> set (map reset_token ys)"
    by blast
  from True have v: "validate_password isupper isdigit pw = Inr True" by simp
  from reset_password_found [OF ids s v] tokens_unique_clear [OF assms(2) s(1), of pw]
  show ?thesis by simp
next
  case False
  then consider "find_by_reset_token db t = None" | "validate_password isupper isdigit pw \<noteq> Inr True"
    by (auto simp: find_by_reset_token_None_iff)
  then have "fst (reset_password isupper isdigit db t pw) = db"
    by cases (auto simp: reset_password_def split: option.splits sum.splits)
  with assms(2) show ?thesis by simp
qed

lemma tokens_unique_forget_password:
  assumes "schema_ok db" and "tokens_unique db" and "draw_ok db (ForgetPassword e rnd)"
  shows "tokens_unique (fst (forget_password rnd db e))"
proof (cases "e \<in> set (map email (rows db))")
  case True
  from assms(1) have ids: "distinct (map user_id (rows db))"
    and ems: "distinct (map email (rows db))" by (simp_all add: schema_ok_def)
  from email_first_split [OF True] obtain ys u zs
    where s: "rows db = ys @ u # zs" "email u = e" "e \<notin> set (map email ys)" by blast
  from ems s have nz: "e \<notin> set (map email zs)" by auto
  from assms(3) s(1)
  have "\<forall>v \<in> set ys \<union> set zs. reset_token v = Some (token_hex rnd 16) \<longrightarrow> email v = e"
    by (simp add: list_all_iff)
  with s(3) nz have "\<forall>v \<in> set ys \<union> set zs. reset_token v \<noteq> Some (token_hex rnd 16)"
    by (auto simp: image_iff)
  from tokens_unique_assign [OF assms(2) s(1) this] forget_password_found [OF ids s, of rnd]
  show ?thesis by simp
next
  case False
  then have "find_by_email db e = None" by (simp add: find_by_email_None_iff)
  with assms(2) show ?thesis by (simp add: forget_password_def)
qed

lemma tokens_unique_serve:
  "schema_ok db \<Longrightarrow> tokens_unique db \<Longrightarrow> draw_ok db r \<Longrightarrow>
   tokens_unique (fst (serve isupper isdigit db r))"
  by (cases r)
    (simp_all add: tokens_unique_signup tokens_unique_forget_password
      tokens_unique_reset_password signin_def split: option.splits)

lemma tokens_unique_run:
  "schema_ok db \<Longrightarrow> tokens_unique db \<Longrightarrow> collision_free isupper isdigit db reqs \<Longrightarrow>
   tokens_unique (run isupper isdigit db reqs)"
proof (induction reqs arbitrary: db)
  case Nil
  then show ?case by (simp add: run_Nil)
next
  case (Cons r reqs)
  from Cons.prems have "schema_ok (fst (serve isupper isdigit db r))"
    and "tokens_unique (fst (serve isupper isdigit db r))"
    and "collision_free isupper isdigit (fst (serve isupper isdigit db r)) reqs"
    by (simp_all add: schema_ok_serve tokens_unique_serve)
  then show ?case by (simp add: run_Cons Cons.IH)
qed

lemma tokens_unique_empty: "tokens_unique empty_store"
  by (simp add: tokens_unique_def held_tokens_def empty_store_def)

text \<open>
  C9, as amended. In every table reached from the empty one by a sequence of requests in
  which every generated token is, when it is generated, held by no user other than the
  one asking, at most one row holds any given reset token.
\<close>

theorem tokens_unique_reachable:
  "collision_free isupper isdigit empty_store reqs \<Longrightarrow>
   tokens_unique (run isupper isdigit empty_store reqs)"
  by (rule tokens_unique_run [OF schema_ok_empty tokens_unique_empty])

lemma session_collision_free: "collision_free ascii_isupper ascii_isdigit empty_store session"
  by (simp add: session_def signup_def validate_ok validate_hunter find_by_email_def
      empty_store_def add_commit_def forget_password_def commit_update_def token_hex_zeros
      token_hex_steps17 Let_def)

lemma session_run:
  "run ascii_isupper ascii_isdigit empty_store session =
     \<lparr>rows = [alice\<lparr>password := ''NewPass2@''\<rparr>,
              bob\<lparr>reset_token := Some ''00112233445566778899aabbccddeeff''\<rparr>], next_id = 3\<rparr>"
  by (simp add: run_def session_def signup_def validate_ok validate_hunter validate_new
      find_by_email_def empty_store_def add_commit_def forget_password_def commit_update_def
      token_hex_zeros token_hex_steps17 Let_def reset_password_def find_by_reset_token_def
      alice_def bob_def)

theorem tokens_unique_reachable_witness:
  "collision_free ascii_isupper ascii_isdigit empty_store session \<and>
   tokens_unique (run ascii_isupper ascii_isdigit empty_store session) \<and>
   held_tokens (run ascii_isupper ascii_isdigit empty_store session) =
     [''00112233445566778899aabbccddeeff'']"
proof -
  have h: "held_tokens (run ascii_isupper ascii_isdigit empty_store session) =
     [''00112233445566778899aabbccddeeff'']"
    by (simp add: session_run held_tokens_def alice_def bob_def)
  from tokens_unique_reachable [OF session_collision_free] session_collision_free h
  show ?thesis by simp
qed

text \<open>
  Without the proviso the statement fails: nothing in the source compares a new token with
  those in the table, and two users whose requests draw the same sixteen bytes hold the
  same token.
\<close>

theorem tokens_unique_counterexample:
  "\<not> tokens_unique (run ascii_isupper ascii_isdigit empty_store
     [Signup ''alice@example.com'' ''Secret1@'', Signup ''bob@example.com'' ''Hunter2@'',
      ForgetPassword ''alice@example.com'' zeros, ForgetPassword ''bob@example.com'' zeros])"
  by (simp add: twins_db_reachable tokens_unique_def held_tokens_def twins_db_def alice_def bob_def)

section \<open>The life of one account\<close>

text \<open>
  Sign up, sign in, ask for a reset, redeem it, and sign in again: the old password is
  refused and the new one accepted.
\<close>

lemma example_scenario:
  "signup ascii_isupper ascii_isdigit empty_store ''alice@example.com'' ''Secret1@'' =
     (alice_db, Inr (Message ''User registered successfully''))"
  "signin alice_db ''alice@example.com'' ''Secret1@'' = (alice_db, Inr (Message ''Login successful''))"
  "forget_password steps17 alice_db ''alice@example.com'' =
     (pending_db, Inr (ResetToken ''00112233445566778899aabbccddeeff''))"
  "reset_password ascii_isupper ascii_isdigit pending_db ''00112233445566778899aabbccddeeff''
       ''NewPass2@'' =
     (alice_db\<lparr>rows := [alice\<lparr>password := ''NewPass2@''\<rparr>]\<rparr>,
      Inr (Message ''Password reset successfully''))"
  "signin (alice_db\<lparr>rows := [alice\<lparr>password := ''NewPass2@''\<rparr>]\<rparr>) ''alice@example.com''
       ''Secret1@'' =
     (alice_db\<lparr>rows := [alice\<lparr>password := ''NewPass2@''\<rparr>]\<rparr>, Inl InvalidCredentials)"
  "signin (alice_db\<lparr>rows := [alice\<lparr>password := ''NewPass2@''\<rparr>]\<rparr>) ''alice@example.com''
       ''NewPass2@'' =
     (alice_db\<lparr>rows := [alice\<lparr>password := ''NewPass2@''\<rparr>]\<rparr>,
      Inr (Message ''Login successful''))"
  by (simp_all add: signup_def signin_def forget_password_def reset_password_def validate_ok
      validate_new find_by_email_def find_by_reset_token_def add_commit_def commit_update_def
      token_hex_steps17 Let_def empty_store_def alice_db_def pending_db_def alice_def)

end
